theory Spec2Isabelle
  imports Complex_Main "HOL-Library.Char_ord" "HOL-Library.List_Lexorder"
    "HOL-Library.Option_ord"
begin

section \<open>The IMDb analysis script (scripts/analysis\_script.py)\<close>

text \<open>
  The script has three steps: \<open>download_csv\<close>, \<open>build_database\<close> and
  \<open>run_queries\<close>. The model starts from the parsed data frame (the list of rows that
  \<open>pd.read_csv\<close> returns) and follows the Python from there. A Python string is a list
  of characters; \<^typ>\<open>char\<close> covers the code points 0 to 255.
\<close>

subsection \<open>Python string operations used by the loader\<close>

text \<open>\<open>str.isspace\<close> on one character, for the code points below 256.\<close>

definition isspace :: "char \<Rightarrow> bool" where
  "isspace c =
     (let n = (of_char c :: nat)
      in (9 \<le> n \<and> n \<le> 13) \<or> (28 \<le> n \<and> n \<le> 32) \<or> n = 133 \<or> n = 160)"

text \<open>\<open>s.strip()\<close>: drop the leading and the trailing whitespace.\<close>

definition strip :: "string \<Rightarrow> string" where
  "strip s = rev (dropWhile isspace (rev (dropWhile isspace s)))"

text \<open>
  \<open>s.split(sep)\<close> for a one-character separator: every occurrence of the separator
  ends a piece, and the pieces may be empty (\<open>"a,,b".split(",")\<close> is
  \<open>["a", "", "b"]\<close>, \<open>"".split(",")\<close> is \<open>[""]\<close>).
\<close>

fun str_split :: "char \<Rightarrow> string \<Rightarrow> string list" where
  "str_split sep [] = [[]]"
| "str_split sep (c # cs) =
     (if c = sep then [] # str_split sep cs
      else (let ps = str_split sep cs in (c # hd ps) # tl ps))"

text \<open>
  A cell of an object column is a string or the missing value NaN (\<open>None\<close> here);
  \<open>str(float('nan'))\<close> is \<open>"nan"\<close>.
\<close>

fun py_str :: "string option \<Rightarrow> string" where
  "py_str None = ''nan''"
| "py_str (Some s) = s"

subsection \<open>Tables\<close>

text \<open>
  A cell of the column \<open>Year\<close> as the store holds it. When every cell of the column
  parses as an integer the column is an integer column. A blank or fractional cell makes
  \<open>pd.read_csv\<close> read the whole column as doubles, the store then has a REAL column,
  and a blank cell is NULL in it. A double is held as the rational number it is equal to.
\<close>

datatype year = IntYear int | RealYear rat | NoYear

text \<open>
  A row of the data frame \<open>movies\<close>, with the columns the script and its queries read.
  \<open>Rank\<close> is an integer column; \<open>Rating\<close>, \<open>Runtime\<close> and \<open>Revenue\<close> are numeric
  columns whose cells may be missing; a cell that is there is held as the rational number
  the double is equal to.
\<close>

record movie =
  Rank :: int
  Title :: string
  Genre :: "string option"
  Director :: "string option"
  Year :: year
  Runtime :: "rat option"
  Rating :: "rat option"
  Revenue :: "rat option"

record genre_row =
  mg_Rank :: int
  mg_Genre :: string

record director_row =
  d_Director :: "string option"
  director_id :: int

record movie_director_row =
  md_Rank :: int
  md_director_id :: "int option"

record store =
  movies :: "movie list"
  movie_genres :: "genre_row list"
  directors :: "director_row list"
  movie_directors :: "movie_director_row list"

datatype error =
  DatabaseError | URLError | IncompleteRead | QueryError
  | FileExistsError | IndexError | OSError

subsection \<open>build\_database\<close>

text \<open>
  \<^verbatim>\<open>genres = [g.strip() for g in str(row["Genre"]).split(",")]\<close>
\<close>

definition genres_of :: "movie \<Rightarrow> string list" where
  "genres_of row = map strip (str_split CHR '','' (py_str (Genre row)))"

text \<open>
  The loop over \<open>movies.iterrows()\<close> that appends one record per genre of each row.
\<close>

fun genre_records :: "movie list \<Rightarrow> genre_row list" where
  "genre_records [] = []"
| "genre_records (row # rows) =
     map (\<lambda>g. \<lparr>mg_Rank = Rank row, mg_Genre = g\<rparr>) (genres_of row) @ genre_records rows"

text \<open>
  \<open>Series.unique()\<close>: the distinct values in order of first appearance. The hash table
  of values seen so far is the list \<open>seen\<close>. NaN counts as one value.
\<close>

fun uniques_from :: "'a list \<Rightarrow> 'a list \<Rightarrow> 'a list" where
  "uniques_from seen [] = []"
| "uniques_from seen (x # xs) =
     (if x \<in> set seen then uniques_from seen xs else x # uniques_from (x # seen) xs)"

definition unique :: "'a list \<Rightarrow> 'a list" where
  "unique xs = uniques_from [] xs"

text \<open>
  \<^verbatim>\<open>unique_directors = pd.DataFrame({"Director": movies["Director"].unique()})\<close>
  \<^verbatim>\<open>unique_directors["director_id"] = unique_directors.index + 1\<close>
\<close>

definition unique_directors :: "movie list \<Rightarrow> director_row list" where
  "unique_directors ms =
     map (\<lambda>(i, d). \<lparr>d_Director = d, director_id = int i + 1\<rparr>)
       (enumerate 0 (unique (map Director ms)))"

text \<open>
  \<^verbatim>\<open>movies[["Rank", "Director"]].merge(unique_directors, on="Director", how="left")\<close>
  keeps the left rows in their order; a left row gets one output row per right row with
  the same key (NaN keys match each other), and one row with a missing \<open>director_id\<close>
  when there is none.
\<close>

definition merge_left :: "movie list \<Rightarrow> director_row list \<Rightarrow> movie_director_row list" where
  "merge_left ms ds =
     concat (map (\<lambda>m.
       (case filter (\<lambda>d. d_Director d = Director m) ds of
          [] \<Rightarrow> [\<lparr>md_Rank = Rank m, md_director_id = None\<rparr>]
        | r # rs \<Rightarrow> map (\<lambda>d. \<lparr>md_Rank = Rank m, md_director_id = Some (director_id d)\<rparr>) (r # rs)))
       ms)"

text \<open>
  The four \<open>to_sql\<close> calls. \<open>pd.DataFrame(records)\<close> of an empty list has no columns,
  the \<open>CREATE TABLE\<close> statement written for it has an empty column list, and the engine
  rejects it: a data frame with no rows makes the second \<open>to_sql\<close> raise.
\<close>

definition build_database :: "movie list \<Rightarrow> error + store" where
  "build_database ms =
     (let records = genre_records ms in
      if records = [] then Inl DatabaseError
      else
        (let ud = unique_directors ms in
         Inr \<lparr>movies = ms, movie_genres = records, directors = ud,
              movie_directors = merge_left ms ud\<rparr>))"

text \<open>
  The same four calls on a database file that holds a store already:
  \<open>if_exists="replace"\<close> makes each call replace the table of that name. What a load
  that raises leaves in the file is not described.
\<close>

definition build_database_over :: "store \<Rightarrow> movie list \<Rightarrow> error + store" where
  "build_database_over old ms =
     (let s1 = old\<lparr>movies := ms\<rparr>;
          records = genre_records ms
      in if records = [] then Inl DatabaseError
         else
           (let s2 = s1\<lparr>movie_genres := records\<rparr>;
                ud = unique_directors ms;
                s3 = s2\<lparr>directors := ud\<rparr>
            in Inr (s3\<lparr>movie_directors := merge_left ms ud\<rparr>)))"

subsection \<open>The SQL of the queries\<close>

text \<open>
  The engine computes on doubles. \<open>sql_avg\<close> and \<open>round2\<close> below are the exact mean
  and the exact rounding: they are what the engine returns where the doubles involved
  are exact and no rounding of a double takes place, as for the ratings 8 and 7 of the
  two-movie data set, and queries 02 and 07 are written with them. Query 10 takes the
  engine's arithmetic as a parameter instead.

  \<open>AVG\<close> skips the missing values and is missing itself when there is none left.
\<close>

definition sql_avg :: "rat option list \<Rightarrow> rat option" where
  "sql_avg vs =
     (let xs = map the (filter (\<lambda>v. v \<noteq> None) vs)
      in if xs = [] then None else Some (sum_list xs / of_nat (length xs)))"

text \<open>\<open>ROUND(x, 2)\<close>: to two decimals, a half away from zero; missing stays missing.\<close>

definition round2 :: "rat \<Rightarrow> rat" where
  "round2 x =
     (if 0 \<le> x then of_int \<lfloor>x * 100 + 1 / 2\<rfloor> / 100
      else - (of_int \<lfloor>- x * 100 + 1 / 2\<rfloor> / 100))"

definition sql_round2 :: "rat option \<Rightarrow> rat option" where
  "sql_round2 v = map_option round2 v"

text \<open>
  What the engine computes on doubles, as far as query 10 needs it:
  \<open>ROUND(AVG(x), 2)\<close> over the cells of a group, taken in the order of the table, and
  \<open>(x / 10) * 10\<close> for a double \<open>x\<close>.
\<close>

record arith =
  round_avg :: "rat option list \<Rightarrow> rat option"
  real_decade :: "rat \<Rightarrow> rat"

text \<open>
  The engine's \<open>/\<close> on two integers truncates toward zero. The divisor is never 0 here
  (query 10 divides by the literal 10).
\<close>

definition sql_div :: "int \<Rightarrow> int \<Rightarrow> int" where
  "sql_div a b = sgn a * sgn b * (\<bar>a\<bar> div \<bar>b\<bar>)"

text \<open>
  \<open>GROUP BY\<close>: one group per distinct key. The engine sorts the rows by the key to
  form the groups, so the groups come out with ascending keys (text compares by code
  points, a missing key comes first).
\<close>

definition group_by :: "('r \<Rightarrow> 'k::linorder) \<Rightarrow> 'r list \<Rightarrow> ('k \<times> 'r list) list" where
  "group_by key rows =
     map (\<lambda>k. (k, filter (\<lambda>r. key r = k) rows)) (sort (remdups (map key rows)))"

text \<open>
  \<open>ORDER BY key DESC\<close>: a missing value is the smallest, so it comes last. SQL leaves
  the order of rows with equal keys open; the engine's sorter keeps them in the order
  they arrive in, and so does this insertion.
\<close>

fun insert_desc :: "('r \<Rightarrow> 'k::linorder) \<Rightarrow> 'r \<Rightarrow> 'r list \<Rightarrow> 'r list" where
  "insert_desc key x [] = [x]"
| "insert_desc key x (y # ys) =
     (if key y \<le> key x then x # y # ys else y # insert_desc key x ys)"

definition order_by_desc :: "('r \<Rightarrow> 'k::linorder) \<Rightarrow> 'r list \<Rightarrow> 'r list" where
  "order_by_desc key rows = foldr (insert_desc key) rows []"

text \<open>\<open>FROM movies m JOIN movie_genres mg ON mg.Rank = m.Rank\<close>\<close>

definition join_genres :: "store \<Rightarrow> (movie \<times> genre_row) list" where
  "join_genres db =
     concat (map (\<lambda>m. map (\<lambda>mg. (m, mg)) (filter (\<lambda>mg. mg_Rank mg = Rank m) (movie_genres db)))
       (movies db))"

text \<open>
  Query 02:
  \<^verbatim>\<open>SELECT mg.Genre, ROUND(AVG(m.Rating), 2) AS avg_rating\<close>
  \<^verbatim>\<open>FROM movies m JOIN movie_genres mg ON mg.Rank = m.Rank\<close>
  \<^verbatim>\<open>GROUP BY mg.Genre ORDER BY avg_rating DESC;\<close>
\<close>

definition q02 :: "store \<Rightarrow> (string \<times> rat option) list" where
  "q02 db =
     order_by_desc snd
       (map (\<lambda>(g, rs). (g, sql_round2 (sql_avg (map (\<lambda>r. Rating (fst r)) rs))))
          (group_by (\<lambda>r. mg_Genre (snd r)) (join_genres db)))"

text \<open>
  Query 07:
  \<^verbatim>\<open>SELECT Director, ROUND(AVG([Revenue (Millions)]), 2) AS avg_revenue,\<close>
  \<^verbatim>\<open>       COUNT(*) AS movies_count\<close>
  \<^verbatim>\<open>FROM movies WHERE [Revenue (Millions)] IS NOT NULL\<close>
  \<^verbatim>\<open>GROUP BY Director HAVING COUNT(*) >= 2\<close>
  \<^verbatim>\<open>ORDER BY avg_revenue DESC LIMIT 10;\<close>
\<close>

definition q07 :: "store \<Rightarrow> (string option \<times> rat option \<times> nat) list" where
  "q07 db =
     take 10
       (order_by_desc (\<lambda>r. fst (snd r))
          (map (\<lambda>(d, rs). (d, sql_round2 (sql_avg (map Revenue rs)), length rs))
             (filter (\<lambda>(d, rs). 2 \<le> length rs)
                (group_by Director (filter (\<lambda>m. Revenue m \<noteq> None) (movies db))))))"

text \<open>
  Query 08:
  \<^verbatim>\<open>SELECT mg.Genre, COUNT(*) AS movie_count FROM movie_genres mg\<close>
  \<^verbatim>\<open>GROUP BY mg.Genre ORDER BY movie_count DESC LIMIT 5;\<close>
\<close>

definition q08 :: "store \<Rightarrow> (string \<times> nat) list" where
  "q08 db =
     take 5
       (order_by_desc snd
          (map (\<lambda>(g, rs). (g, length rs)) (group_by mg_Genre (movie_genres db))))"

text \<open>
  Query 10:
  \<^verbatim>\<open>SELECT (Year/10)*10 AS decade, ROUND(AVG(Rating), 2) AS avg_rating,\<close>
  \<^verbatim>\<open>       COUNT(*) AS movie_count\<close>
  \<^verbatim>\<open>FROM movies GROUP BY decade ORDER BY decade;\<close>
\<close>

text \<open>
  The value of \<open>(Year/10)*10\<close> for a row: integer arithmetic on an integer year,
  double arithmetic on a double, NULL (\<open>None\<close>) on NULL. The result is an integer or a
  double; it is held as the rational number it is equal to. \<open>ORDER BY decade\<close> is
  ascending, NULL first.
\<close>

definition decade :: "arith \<Rightarrow> movie \<Rightarrow> rat option" where
  "decade ar m =
     (case Year m of
        IntYear y \<Rightarrow> Some (of_int (sql_div y 10 * 10))
      | RealYear x \<Rightarrow> Some (real_decade ar x)
      | NoYear \<Rightarrow> None)"


subsection \<open>download\_csv\<close>

text \<open>
  The world the script acts on: the files (path to contents), the URLs requested so
  far, and what was printed. The remote end is a parameter: \<open>urlopen\<close> raises or
  gives a response, and reading the response raises or gives the body.
\<close>

datatype message =
  AlreadyPresent string | Downloading string | DownloadComplete | SavedResults string

record world =
  files :: "string \<rightharpoonup> string"
  requests :: "string list"
  stdout :: "message list"

type_synonym remote = "string \<Rightarrow> error + (error + string)"

definition REPO_URL :: string where
  "REPO_URL = ''https://github.com/peetck/IMDB-Top1000-Movies/raw/master/IMDB-Movie-Data.csv''"

definition print :: "message \<Rightarrow> world \<Rightarrow> world" where
  "print msg w = w\<lparr>stdout := stdout w @ [msg]\<rparr>"

definition write_file :: "string \<Rightarrow> string \<Rightarrow> world \<Rightarrow> world" where
  "write_file path content w = w\<lparr>files := (files w)(path \<mapsto> content)\<rparr>"

text \<open>
  \<open>with urlopen(req) as response, open(csv_path, "wb") as out\<close> opens the URL first
  and the file second (created empty), and only then reads the body and writes it.
\<close>

definition download_csv :: "remote \<Rightarrow> string \<Rightarrow> world \<Rightarrow> (error + unit) \<times> world" where
  "download_csv net csv_path w =
     (if files w csv_path \<noteq> None then (Inr (), print (AlreadyPresent csv_path) w)
      else
        (let w1 = print (Downloading csv_path) w;
             w2 = w1\<lparr>requests := requests w1 @ [REPO_URL]\<rparr>
         in case net REPO_URL of
              Inl e \<Rightarrow> (Inl e, w2)
            | Inr response \<Rightarrow>
                (let w3 = write_file csv_path [] w2
                 in case response of
                      Inl e \<Rightarrow> (Inl e, w3)
                    | Inr body \<Rightarrow> (Inr (), print DownloadComplete (write_file csv_path body w3)))))"

subsection \<open>run\_queries\<close>

text \<open>The dictionary \<open>queries\<close>, in its order: file name and SQL text.\<close>

definition queries :: "(string \<times> string) list" where
  "queries = [
    (''01_top_10_highest_rated.sql'',
      ''\<newline>'' @
      ''            SELECT Title, Year, Rating'' @ ''\<newline>'' @
      ''            FROM movies'' @ ''\<newline>'' @
      ''            ORDER BY Rating DESC'' @ ''\<newline>'' @
      ''            LIMIT 10;'' @ ''\<newline>'' @
      ''        ''),
    (''02_average_rating_per_genre.sql'',
      ''\<newline>'' @
      ''            SELECT mg.Genre, ROUND(AVG(m.Rating), 2) AS avg_rating'' @ ''\<newline>'' @
      ''            FROM movies m'' @ ''\<newline>'' @
      ''            JOIN movie_genres mg ON mg.Rank = m.Rank'' @ ''\<newline>'' @
      ''            GROUP BY mg.Genre'' @ ''\<newline>'' @
      ''            ORDER BY avg_rating DESC;'' @ ''\<newline>'' @
      ''        ''),
    (''03_movies_count_per_director.sql'',
      ''\<newline>'' @
      ''            SELECT Director, COUNT(*) AS movie_count'' @ ''\<newline>'' @
      ''            FROM movies'' @ ''\<newline>'' @
      ''            GROUP BY Director'' @ ''\<newline>'' @
      ''            ORDER BY movie_count DESC'' @ ''\<newline>'' @
      ''            LIMIT 10;'' @ ''\<newline>'' @
      ''        ''),
    (''04_movies_count_per_year.sql'',
      ''\<newline>'' @
      ''            SELECT Year, COUNT(*) AS movie_count'' @ ''\<newline>'' @
      ''            FROM movies'' @ ''\<newline>'' @
      ''            GROUP BY Year'' @ ''\<newline>'' @
      ''            ORDER BY Year DESC;'' @ ''\<newline>'' @
      ''        ''),
    (''05_top_movie_per_year.sql'',
      ''\<newline>'' @
      ''            SELECT Year, Title, Rating'' @ ''\<newline>'' @
      ''            FROM ('' @ ''\<newline>'' @
      ''                SELECT Year, Title, Rating,'' @ ''\<newline>'' @
      ''                       ROW_NUMBER() OVER (PARTITION BY Year ORDER BY Rating DESC) AS rn'' @ ''\<newline>'' @
      ''                FROM movies'' @ ''\<newline>'' @
      ''            ) t'' @ ''\<newline>'' @
      ''            WHERE rn = 1'' @ ''\<newline>'' @
      ''            ORDER BY Year DESC;'' @ ''\<newline>'' @
      ''        ''),
    (''06_top_5_revenue_per_year.sql'',
      ''\<newline>'' @
      ''            SELECT Year, Title, [Revenue (Millions)] AS Revenue'' @ ''\<newline>'' @
      ''            FROM ('' @ ''\<newline>'' @
      ''                SELECT Year, Title, [Revenue (Millions)],'' @ ''\<newline>'' @
      ''                       ROW_NUMBER() OVER (PARTITION BY Year ORDER BY [Revenue (Millions)] DESC) AS rn'' @ ''\<newline>'' @
      ''                FROM movies'' @ ''\<newline>'' @
      ''                WHERE [Revenue (Millions)] IS NOT NULL'' @ ''\<newline>'' @
      ''            ) t'' @ ''\<newline>'' @
      ''            WHERE rn <= 5'' @ ''\<newline>'' @
      ''            ORDER BY Year DESC, rn;'' @ ''\<newline>'' @
      ''        ''),
    (''07_avg_revenue_per_director.sql'',
      ''\<newline>'' @
      ''            SELECT Director, ROUND(AVG([Revenue (Millions)]), 2) AS avg_revenue, COUNT(*) AS movies_count'' @ ''\<newline>'' @
      ''            FROM movies'' @ ''\<newline>'' @
      ''            WHERE [Revenue (Millions)] IS NOT NULL'' @ ''\<newline>'' @
      ''            GROUP BY Director'' @ ''\<newline>'' @
      ''            HAVING COUNT(*) >= 2'' @ ''\<newline>'' @
      ''            ORDER BY avg_revenue DESC'' @ ''\<newline>'' @
      ''            LIMIT 10;'' @ ''\<newline>'' @
      ''        ''),
    (''08_top_5_genres_by_count.sql'',
      ''\<newline>'' @
      ''            SELECT mg.Genre, COUNT(*) AS movie_count'' @ ''\<newline>'' @
      ''            FROM movie_genres mg'' @ ''\<newline>'' @
      ''            GROUP BY mg.Genre'' @ ''\<newline>'' @
      ''            ORDER BY movie_count DESC'' @ ''\<newline>'' @
      ''            LIMIT 5;'' @ ''\<newline>'' @
      ''        ''),
    (''09_avg_runtime_per_genre.sql'',
      ''\<newline>'' @
      ''            SELECT mg.Genre, ROUND(AVG([Runtime (Minutes)]), 2) AS avg_runtime'' @ ''\<newline>'' @
      ''            FROM movies m'' @ ''\<newline>'' @
      ''            JOIN movie_genres mg ON mg.Rank = m.Rank'' @ ''\<newline>'' @
      ''            GROUP BY mg.Genre'' @ ''\<newline>'' @
      ''            ORDER BY avg_runtime DESC;'' @ ''\<newline>'' @
      ''        ''),
    (''10_avg_rating_per_decade.sql'',
      ''\<newline>'' @
      ''            SELECT (Year/10)*10 AS decade, ROUND(AVG(Rating), 2) AS avg_rating, COUNT(*) AS movie_count'' @ ''\<newline>'' @
      ''            FROM movies'' @ ''\<newline>'' @
      ''            GROUP BY decade'' @ ''\<newline>'' @
      ''            ORDER BY decade;'' @ ''\<newline>'' @
      ''        ''),
    (''11_top_3_movies_per_genre.sql'',
      ''\<newline>'' @
      ''            SELECT Genre, Title, Rating'' @ ''\<newline>'' @
      ''            FROM ('' @ ''\<newline>'' @
      ''                SELECT mg.Genre, m.Title, m.Rating,'' @ ''\<newline>'' @
      ''                       ROW_NUMBER() OVER (PARTITION BY mg.Genre ORDER BY m.Rating DESC) AS rn'' @ ''\<newline>'' @
      ''                FROM movie_genres mg'' @ ''\<newline>'' @
      ''                JOIN movies m ON m.Rank = mg.Rank'' @ ''\<newline>'' @
      ''            ) t'' @ ''\<newline>'' @
      ''            WHERE rn <= 3'' @ ''\<newline>'' @
      ''            ORDER BY Genre ASC, rn;'' @ ''\<newline>'' @
      ''        '')
  ]"

text \<open>\<open>fname.replace(".sql", new)\<close>: every occurrence, from the left.\<close>

fun replace_sql :: "string \<Rightarrow> string \<Rightarrow> string" where
  "replace_sql new [] = []"
| "replace_sql new (c # cs) =
     (if take 4 (c # cs) = ''.sql'' then new @ replace_sql new (drop 3 cs)
      else c # replace_sql new cs)"

definition path_join :: "string \<Rightarrow> string \<Rightarrow> string" where
  "path_join dir fname = dir @ ''/'' @ fname"

text \<open>
  The engine and the operating system are parameters. \<open>connect\<close> says whether
  \<open>sqlite3.connect\<close> raises, \<open>read_sql\<close> raises or gives a data frame, \<open>len\<close> is
  its number of rows, \<open>to_csv\<close> the text of its CSV file, and \<open>savefig\<close> raises or
  gives the bytes of the image of its first rows. Creating the directory, opening a file
  for writing and writing to it raise when the operating system says so.
\<close>

record 'df engine =
  connect :: "error option"
  read_sql :: "string \<Rightarrow> error + 'df"
  len :: "'df \<Rightarrow> nat"
  to_csv :: "'df \<Rightarrow> string"
  savefig :: "'df \<Rightarrow> error + string"

record os =
  mkdir_fault :: "string \<Rightarrow> error option"
  open_fault :: "string \<Rightarrow> error option"
  write_fault :: "string \<Rightarrow> error option"

text \<open>
  Where a run stopped: the statement that raised, the file name of the query it was
  working on (the directory for \<open>mkdir\<close> and \<open>connect\<close>, the table for the loader),
  and the error.
\<close>

datatype step = Load | Mkdir | Connect | WriteSql | Execute | WriteCsv | Render | WritePng

type_synonym failure = "step \<times> string \<times> error"

text \<open>
  \<open>with open(path, "w") as f: f.write(content)\<close>, and the same for the files that
  \<open>to_csv\<close> and \<open>savefig\<close> write: opening creates the file or empties it, the write
  fills it.
\<close>

definition save_file :: "os \<Rightarrow> string \<Rightarrow> string \<Rightarrow> world \<Rightarrow> (error + unit) \<times> world" where
  "save_file sys path content w =
     (case open_fault sys path of
        Some e \<Rightarrow> (Inl e, w)
      | None \<Rightarrow>
          (case write_fault sys path of
             Some e \<Rightarrow> (Inl e, write_file path [] w)
           | None \<Rightarrow> (Inr (), write_file path content w)))"

text \<open>
  The body of \<open>for fname, sql in queries.items()\<close>: write the SQL text, execute, write
  the CSV, draw the table and write the image. \<open>ax.table\<close> reads the first row of
  \<open>cellText\<close> to count the columns and raises \<open>IndexError\<close> on a result with no rows.
\<close>

definition run_query :: "os \<Rightarrow> 'df engine \<Rightarrow> string \<Rightarrow> string \<times> string \<Rightarrow> world \<Rightarrow> (failure + unit) \<times> world" where
  "run_query sys eng output_dir q w =
     (let fname = fst q; sql = strip (snd q)
      in case save_file sys (path_join output_dir fname) (sql @ ''\<newline>'') w of
           (Inl e, w1) \<Rightarrow> (Inl (WriteSql, fname, e), w1)
         | (Inr u, w1) \<Rightarrow>
             (case read_sql eng sql of
                Inl e \<Rightarrow> (Inl (Execute, fname, e), w1)
              | Inr df \<Rightarrow>
                  (case save_file sys (path_join output_dir (replace_sql ''.csv'' fname))
                          (to_csv eng df) w1 of
                     (Inl e, w2) \<Rightarrow> (Inl (WriteCsv, fname, e), w2)
                   | (Inr u, w2) \<Rightarrow>
                       if len eng df = 0 then (Inl (Render, fname, IndexError), w2)
                       else
                         (case savefig eng df of
                            Inl e \<Rightarrow> (Inl (Render, fname, e), w2)
                          | Inr png \<Rightarrow>
                              (case save_file sys (path_join output_dir (replace_sql ''.png'' fname))
                                      png w2 of
                                 (Inl e, w3) \<Rightarrow> (Inl (WritePng, fname, e), w3)
                               | (Inr u, w3) \<Rightarrow> (Inr (), w3))))))"

text \<open>A query that raises ends the run there.\<close>

fun run_loop :: "os \<Rightarrow> 'df engine \<Rightarrow> string \<Rightarrow> (string \<times> string) list \<Rightarrow> world \<Rightarrow> (failure + unit) \<times> world" where
  "run_loop sys eng output_dir [] w = (Inr (), w)"
| "run_loop sys eng output_dir (q # rest) w =
     (case run_query sys eng output_dir q w of
        (Inl f, w') \<Rightarrow> (Inl f, w')
      | (Inr u, w') \<Rightarrow> run_loop sys eng output_dir rest w')"

text \<open>
  \<open>output_dir.mkdir(parents=True, exist_ok=True)\<close> raises \<open>FileExistsError\<close> when the
  path is a regular file. The world holds the regular files by their full path.
\<close>

definition run_queries :: "os \<Rightarrow> 'df engine \<Rightarrow> string \<Rightarrow> world \<Rightarrow> (failure + unit) \<times> world" where
  "run_queries sys eng output_dir w =
     (if files w output_dir \<noteq> None then (Inl (Mkdir, output_dir, FileExistsError), w)
      else
        (case mkdir_fault sys output_dir of
           Some e \<Rightarrow> (Inl (Mkdir, output_dir, e), w)
         | None \<Rightarrow>
             (case connect eng of
                Some e \<Rightarrow> (Inl (Connect, output_dir, e), w)
              | None \<Rightarrow>
                  (case run_loop sys eng output_dir queries w of
                     (Inl f, w') \<Rightarrow> (Inl f, w')
                   | (Inr u, w') \<Rightarrow> (Inr u, print (SavedResults output_dir) w')))))"

subsection \<open>The pipeline\<close>

text \<open>
  \<open>build_database\<close> followed by \<open>run_queries\<close>, on a database file and a world that
  earlier runs may have written. The engine answers from the store the loader has just
  built.
\<close>

definition pipeline :: "os \<Rightarrow> (store \<Rightarrow> 'df engine) \<Rightarrow> string \<Rightarrow> movie list \<Rightarrow> store \<Rightarrow> world \<Rightarrow> (failure + unit) \<times> world" where
  "pipeline sys eng output_dir ms old w =
     (case build_database_over old ms of
        Inl e \<Rightarrow> (Inl (Load, ''movie_genres'', e), w)
      | Inr db \<Rightarrow> run_queries sys (eng db) output_dir w)"

subsection \<open>Notions the properties are stated with\<close>

text \<open>The position at which a value first occurs in a list (its length when it does not).\<close>

definition first_index :: "'a list \<Rightarrow> 'a \<Rightarrow> nat" where
  "first_index xs x = length (takeWhile (\<lambda>y. y \<noteq> x) xs)"

text \<open>The two-movie data set of the specification, and the store the loader builds from it.\<close>

definition toy_movies :: "movie list" where
  "toy_movies =
     [\<lparr>Rank = 1, Title = ''A'', Genre = Some ''Drama, War'', Director = Some ''X'',
        Year = IntYear 2000, Runtime = Some 120, Rating = Some 8, Revenue = Some 50\<rparr>,
      \<lparr>Rank = 2, Title = ''B'', Genre = Some ''Drama'', Director = Some ''X'',
        Year = IntYear 2001, Runtime = Some 90, Rating = Some 7, Revenue = None\<rparr>]"

definition toy_store :: store where
  "toy_store =
     \<lparr>movies = toy_movies,
      movie_genres =
        [\<lparr>mg_Rank = 1, mg_Genre = ''Drama''\<rparr>, \<lparr>mg_Rank = 1, mg_Genre = ''War''\<rparr>,
         \<lparr>mg_Rank = 2, mg_Genre = ''Drama''\<rparr>],
      directors = [\<lparr>d_Director = Some ''X'', director_id = 1\<rparr>],
      movie_directors =
        [\<lparr>md_Rank = 1, md_director_id = Some 1\<rparr>, \<lparr>md_Rank = 2, md_director_id = Some 1\<rparr>]\<rparr>"

text \<open>A movie whose genre cell is missing.\<close>

definition movie_without_genre :: movie where
  "movie_without_genre =
     \<lparr>Rank = 7, Title = ''C'', Genre = None, Director = Some ''Y'',
      Year = IntYear 1999, Runtime = Some 100, Rating = Some 6, Revenue = None\<rparr>"

text \<open>
  The director names of a data frame as the specification speaks of them: the names
  that are there, a blank cell being no name.
\<close>

definition director_names :: "movie list \<Rightarrow> string list" where
  "director_names ms = map the (filter (\<lambda>d. d \<noteq> None) (map Director ms))"

text \<open>
  A data frame of three movies by two directors, the first of them directing twice, and
  the store the loader builds from it; and a data frame whose first movie has a blank
  director cell.
\<close>

definition three_movies :: "movie list" where
  "three_movies =
     [\<lparr>Rank = 1, Title = ''A'', Genre = Some ''Drama'', Director = Some ''Y'',
        Year = IntYear 2000, Runtime = Some 120, Rating = Some 8, Revenue = Some 50\<rparr>,
      \<lparr>Rank = 2, Title = ''B'', Genre = Some ''War'', Director = Some ''X'',
        Year = IntYear 2001, Runtime = Some 90, Rating = Some 7, Revenue = None\<rparr>,
      \<lparr>Rank = 3, Title = ''C'', Genre = Some ''Drama'', Director = Some ''Y'',
        Year = IntYear 2002, Runtime = Some 95, Rating = Some 6, Revenue = None\<rparr>]"

definition three_store :: store where
  "three_store =
     \<lparr>movies = three_movies,
      movie_genres =
        [\<lparr>mg_Rank = 1, mg_Genre = ''Drama''\<rparr>, \<lparr>mg_Rank = 2, mg_Genre = ''War''\<rparr>,
         \<lparr>mg_Rank = 3, mg_Genre = ''Drama''\<rparr>],
      directors =
        [\<lparr>d_Director = Some ''Y'', director_id = 1\<rparr>, \<lparr>d_Director = Some ''X'', director_id = 2\<rparr>],
      movie_directors =
        [\<lparr>md_Rank = 1, md_director_id = Some 1\<rparr>, \<lparr>md_Rank = 2, md_director_id = Some 2\<rparr>,
         \<lparr>md_Rank = 3, md_director_id = Some 1\<rparr>]\<rparr>"

definition blank_director_movies :: "movie list" where
  "blank_director_movies =
     [\<lparr>Rank = 1, Title = ''A'', Genre = Some ''Drama'', Director = None,
        Year = IntYear 2000, Runtime = Some 120, Rating = Some 8, Revenue = Some 50\<rparr>,
      \<lparr>Rank = 2, Title = ''B'', Genre = Some ''War'', Director = Some ''X'',
        Year = IntYear 2001, Runtime = Some 90, Rating = Some 7, Revenue = None\<rparr>]"




text \<open>
  The three files the reporter writes for the query stored under \<open>fname\<close>: their names,
  and their paths in the output directory.
\<close>

definition artefact_names :: "string \<Rightarrow> string list" where
  "artefact_names fname = [fname, replace_sql ''.csv'' fname, replace_sql ''.png'' fname]"

definition artefacts :: "string \<Rightarrow> string \<Rightarrow> string list" where
  "artefacts dir fname = map (path_join dir) (artefact_names fname)"

definition csv_of :: "string \<Rightarrow> string \<Rightarrow> string" where
  "csv_of dir fname = path_join dir (replace_sql ''.csv'' fname)"

definition png_of :: "string \<Rightarrow> string \<Rightarrow> string" where
  "png_of dir fname = path_join dir (replace_sql ''.png'' fname)"

text \<open>
  Worlds, engines, an operating system and a remote end to run the script on: a world
  with no file, one that holds the data set already, one that holds the CSV of query 1
  from an earlier run; an engine that rejects every query, one that executes only
  query 1, one that answers every query with one row; an operating system that raises
  nowhere; a remote end that serves a given body.
\<close>

definition empty_world :: world where
  "empty_world = \<lparr>files = Map.empty, requests = [], stdout = []\<rparr>"

definition present_world :: world where
  "present_world = \<lparr>files = [''data.csv'' \<mapsto> ''Rank,Title''], requests = [], stdout = []\<rparr>"

definition stale_world :: world where
  "stale_world =
     \<lparr>files = [''out/01_top_10_highest_rated.csv'' \<mapsto> ''Title,Year,Rating''],
      requests = [], stdout = []\<rparr>"

definition failing_engine :: "unit engine" where
  "failing_engine =
     \<lparr>connect = None, read_sql = (\<lambda>sql. Inl QueryError), len = (\<lambda>df. 0), to_csv = (\<lambda>df. []),
      savefig = (\<lambda>df. Inr [])\<rparr>"

definition first_only_engine :: "unit engine" where
  "first_only_engine =
     \<lparr>connect = None,
      read_sql = (\<lambda>sql. if take 18 sql = ''SELECT Title, Year'' then Inr () else Inl QueryError),
      len = (\<lambda>df. 1), to_csv = (\<lambda>df. ''Title,Year,Rating''), savefig = (\<lambda>df. Inr ''PNG'')\<rparr>"

definition one_row_engine :: "unit engine" where
  "one_row_engine =
     \<lparr>connect = None, read_sql = (\<lambda>sql. Inr ()), len = (\<lambda>df. 1), to_csv = (\<lambda>df. ''a,b''),
      savefig = (\<lambda>df. Inr ''PNG'')\<rparr>"

definition no_faults :: os where
  "no_faults =
     \<lparr>mkdir_fault = (\<lambda>path. None), open_fault = (\<lambda>path. None), write_fault = (\<lambda>path. None)\<rparr>"

definition serving :: "string \<Rightarrow> remote" where
  "serving body url = Inr (Inr body)"

section \<open>Properties of the loader\<close>

subsection \<open>The genre table\<close>

lemma str_split_not_Nil: "str_split sep s \<noteq> []"
  by (induction s) (simp_all add: Let_def)

lemma length_str_split: "length (str_split sep s) = Suc (count_list s sep)"
proof (induction s)
  case Nil
  show ?case by simp
next
  case (Cons c cs)
  have "length (tl (str_split sep cs)) = count_list cs sep"
    using Cons.IH by simp
  with Cons.IH show ?case by (simp add: Let_def)
qed

lemma length_genres_of: "length (genres_of m) = Suc (count_list (py_str (Genre m)) CHR '','')"
  by (simp add: genres_of_def length_str_split)


lemma genre_records_append: "genre_records (xs @ ys) = genre_records xs @ genre_records ys"
  by (induction xs) simp_all

lemma genre_records_Nil_iff: "genre_records ms = [] \<longleftrightarrow> ms = []"
proof (cases ms)
  case Nil
  then show ?thesis by simp
next
  case (Cons m rest)
  have "genres_of m \<noteq> []"
    using length_genres_of [of m] by auto
  with Cons show ?thesis by simp
qed

lemma build_database_Inr:
  "build_database ms = Inr db \<longleftrightarrow>
     ms \<noteq> [] \<and> db = \<lparr>movies = ms, movie_genres = genre_records ms,
        directors = unique_directors ms,
        movie_directors = merge_left ms (unique_directors ms)\<rparr>"
  by (auto simp: build_database_def Let_def genre_records_Nil_iff)




lemma build_toy: "build_database toy_movies = Inr toy_store"
  by (simp add: build_database_def toy_movies_def toy_store_def genres_of_def strip_def
      isspace_def Let_def unique_directors_def unique_def merge_left_def enumerate_eq_zip)


lemma genres_of_nan: "Genre m = None \<Longrightarrow> genres_of m = [''nan'']"
  by (simp add: genres_of_def strip_def isspace_def Let_def)

text \<open>
  Claim C9. A movie whose genre cell is missing is neither skipped nor fatal: wherever
  it stands in the data frame, the loader succeeds and the movie contributes exactly
  one row to \<open>movie_genres\<close>, with the genre \<open>nan\<close>, between the rows of the movies
  before it and those of the movies after it.
\<close>

theorem missing_genre_row:
  assumes "Genre m = None"
  shows "\<exists>db. build_database (pre @ m # post) = Inr db \<and>
     movie_genres db =
       genre_records pre @ [\<lparr>mg_Rank = Rank m, mg_Genre = ''nan''\<rparr>] @ genre_records post"
  using assms by (simp add: build_database_Inr genre_records_append genres_of_nan)

theorem missing_genre_row_witness:
  "Genre movie_without_genre = None \<and>
   (\<exists>db. build_database (toy_movies @ movie_without_genre # []) = Inr db \<and>
      movie_genres db =
        genre_records toy_movies @
        [\<lparr>mg_Rank = Rank movie_without_genre, mg_Genre = ''nan''\<rparr>] @ genre_records [])"
proof -
  have h: "Genre movie_without_genre = None"
    by (simp add: movie_without_genre_def)
  show ?thesis
    using h missing_genre_row [OF h, of toy_movies "[]"] by simp
qed

subsection \<open>The director tables\<close>

lemma set_uniques_from: "set (uniques_from seen xs) = set xs - set seen"
  by (induction xs arbitrary: seen) auto

lemma distinct_uniques_from: "distinct (uniques_from seen xs)"
  by (induction xs arbitrary: seen) (auto simp: set_uniques_from)

lemma first_index_Cons:
  "first_index (x # xs) y = (if y = x then 0 else Suc (first_index xs y))"
  by (simp add: first_index_def)

lemma uniques_from_first_seen:
  "sorted_wrt (\<lambda>a b. first_index xs a < first_index xs b) (uniques_from seen xs)"
proof (induction xs arbitrary: seen)
  case Nil
  show ?case by simp
next
  case (Cons x xs)
  show ?case
  proof (cases "x \<in> set seen")
    case True
    have "sorted_wrt (\<lambda>a b. first_index (x # xs) a < first_index (x # xs) b)
            (uniques_from seen xs)"
    proof (rule sorted_wrt_mono_rel [OF _ Cons.IH [of seen]])
      fix a b
      assume "a \<in> set (uniques_from seen xs)" "b \<in> set (uniques_from seen xs)"
        and "first_index xs a < first_index xs b"
      with True show "first_index (x # xs) a < first_index (x # xs) b"
        by (auto simp: set_uniques_from first_index_Cons)
    qed
    with True show ?thesis by simp
  next
    case False
    have "sorted_wrt (\<lambda>a b. first_index (x # xs) a < first_index (x # xs) b)
            (uniques_from (x # seen) xs)"
    proof (rule sorted_wrt_mono_rel [OF _ Cons.IH [of "x # seen"]])
      fix a b
      assume "a \<in> set (uniques_from (x # seen) xs)" "b \<in> set (uniques_from (x # seen) xs)"
        and "first_index xs a < first_index xs b"
      then show "first_index (x # xs) a < first_index (x # xs) b"
        by (auto simp: set_uniques_from first_index_Cons)
    qed
    moreover have "\<forall>b\<in>set (uniques_from (x # seen) xs).
        first_index (x # xs) x < first_index (x # xs) b"
      by (auto simp: set_uniques_from first_index_Cons)
    ultimately show ?thesis using False by simp
  qed
qed

lemma set_unique: "set (unique xs) = set xs"
  by (simp add: unique_def set_uniques_from)

lemma distinct_unique: "distinct (unique xs)"
  by (simp add: unique_def distinct_uniques_from)

lemma length_unique: "length (unique xs) = card (set xs)"
  using distinct_card [OF distinct_unique [of xs]] by (simp add: set_unique)

lemma names_unique_directors:
  "map d_Director (unique_directors ms) = unique (map Director ms)"
  by (simp add: unique_directors_def comp_def case_prod_unfold enumerate_eq_zip)

lemma map_of_fst_zip:
  "length xs = length ys \<Longrightarrow> map (\<lambda>p. f (fst p)) (zip xs ys) = map f xs"
  by (induction xs ys rule: list_induct2) simp_all

lemma ids_unique_directors:
  "map director_id (unique_directors ms) =
     map (\<lambda>k. int k + 1) [0..<length (unique (map Director ms))]"
  by (simp add: unique_directors_def comp_def case_prod_unfold enumerate_eq_zip
      map_of_fst_zip [where f = "\<lambda>k. int k + 1"])

lemma length_unique_directors:
  "length (unique_directors ms) = length (unique (map Director ms))"
  by (simp add: unique_directors_def)

text \<open>
  Claim C4, as amended. When the loader succeeds, the \<open>k\<close>-th row of \<open>directors\<close>
  (counting from 0) has the identifier \<open>k + 1\<close>, and the rows hold the distinct values of
  the column \<open>Director\<close> of \<open>movies\<close>, a blank cell counting as one value, in the order
  in which they first appear there: no value twice, every value of \<open>movies\<close> present,
  and a value that stands earlier in \<open>directors\<close> first occurs earlier in \<open>movies\<close>.
\<close>

theorem director_ids_first_seen:
  assumes "build_database ms = Inr db"
  shows "map director_id (directors db) = map (\<lambda>k. int k + 1) [0..<length (directors db)] \<and>
    distinct (map d_Director (directors db)) \<and>
    set (map d_Director (directors db)) = set (map Director ms) \<and>
    sorted_wrt (\<lambda>a b. first_index (map Director ms) a < first_index (map Director ms) b)
      (map d_Director (directors db))"
proof -
  from assms have d: "directors db = unique_directors ms"
    by (simp add: build_database_Inr)
  have "sorted_wrt (\<lambda>a b. first_index (map Director ms) a < first_index (map Director ms) b)
      (unique (map Director ms))"
    unfolding unique_def by (rule uniques_from_first_seen)
  then show ?thesis
    unfolding d names_unique_directors ids_unique_directors length_unique_directors
    by (simp add: distinct_unique set_unique)
qed

lemma build_three: "build_database three_movies = Inr three_store"
  by (simp add: build_database_def three_movies_def three_store_def genres_of_def strip_def
      isspace_def Let_def unique_directors_def unique_def merge_left_def enumerate_eq_zip)

theorem director_ids_first_seen_witness:
  "build_database three_movies = Inr three_store \<and>
   map Director three_movies = [Some ''Y'', Some ''X'', Some ''Y''] \<and>
   map d_Director (directors three_store) = [Some ''Y'', Some ''X''] \<and>
   map director_id (directors three_store) =
     map (\<lambda>k. int k + 1) [0..<length (directors three_store)] \<and>
   map director_id (directors three_store) = [1, 2] \<and>
   sorted_wrt (\<lambda>a b. first_index (map Director three_movies) a
                     < first_index (map Director three_movies) b)
     (map d_Director (directors three_store))"
proof -
  note t = director_ids_first_seen [OF build_three]
  from t have ids: "map director_id (directors three_store) =
      map (\<lambda>k. int k + 1) [0..<length (directors three_store)]"
    by (rule conjunct1)
  from t have ord: "sorted_wrt (\<lambda>a b. first_index (map Director three_movies) a
                     < first_index (map Director three_movies) b)
     (map d_Director (directors three_store))"
    by (elim conjE)
  have "map Director three_movies = [Some ''Y'', Some ''X'', Some ''Y'']"
    by (simp add: three_movies_def)
  moreover have "map d_Director (directors three_store) = [Some ''Y'', Some ''X'']"
    "map director_id (directors three_store) = [1, 2]"
    by (simp_all add: three_store_def)
  ultimately show ?thesis using build_three ids ord by simp
qed

text \<open>
  The claim as stated gives the \<open>k\<close>-th distinct director name the identifier \<open>k\<close>.
  When the first movie has a blank director cell, the blank takes the identifier 1 and
  the first (and only) director name, \<open>X\<close>, gets the identifier 2.
\<close>

lemma directors_blank:
  "map_sum id directors (build_database blank_director_movies) =
     Inr [\<lparr>d_Director = None, director_id = 1\<rparr>, \<lparr>d_Director = Some ''X'', director_id = 2\<rparr>]"
  by (simp add: build_database_def blank_director_movies_def genres_of_def strip_def
      isspace_def Let_def unique_directors_def unique_def enumerate_eq_zip)

theorem director_ids_first_seen_counterexample:
  "map_sum id directors (build_database blank_director_movies) =
     Inr [\<lparr>d_Director = None, director_id = 1\<rparr>, \<lparr>d_Director = Some ''X'', director_id = 2\<rparr>] \<and>
   unique (director_names blank_director_movies) = [''X'']"
  by (simp add: directors_blank)
    (simp add: director_names_def blank_director_movies_def unique_def)

lemma merge_left_refers:
  assumes "d \<in> set ds" and "m \<in> set ms" and "Director m = d_Director d"
  shows "\<lparr>md_Rank = Rank m, md_director_id = Some (director_id d)\<rparr> \<in> set (merge_left ms ds)"
proof -
  from assms have "d \<in> set (filter (\<lambda>d'. d_Director d' = Director m) ds)" by simp
  then have "\<lparr>md_Rank = Rank m, md_director_id = Some (director_id d)\<rparr> \<in>
      set (case filter (\<lambda>d'. d_Director d' = Director m) ds of
          [] \<Rightarrow> [\<lparr>md_Rank = Rank m, md_director_id = None\<rparr>]
        | r # rs \<Rightarrow> map (\<lambda>d. \<lparr>md_Rank = Rank m, md_director_id = Some (director_id d)\<rparr>) (r # rs))"
    by (cases "filter (\<lambda>d'. d_Director d' = Director m) ds") (auto simp del: filter.simps)
  with assms(2) show ?thesis unfolding merge_left_def by auto
qed

text \<open>
  Claim C5, as amended. When the loader succeeds, \<open>directors\<close> has exactly one row for
  each distinct value of the column \<open>Director\<close> of \<open>movies\<close>, a blank cell counting as
  one value (as many rows as distinct values, no value twice, the same set of values),
  and the identifier of every row of \<open>directors\<close> occurs in some row of
  \<open>movie_directors\<close>.
\<close>

theorem directors_one_row_per_name:
  assumes "build_database ms = Inr db"
  shows "length (directors db) = card (Director ` set ms) \<and>
    distinct (map d_Director (directors db)) \<and>
    d_Director ` set (directors db) = Director ` set ms \<and>
    (\<forall>d\<in>set (directors db). \<exists>r\<in>set (movie_directors db).
        md_director_id r = Some (director_id d))"
proof -
  from assms have d: "directors db = unique_directors ms"
    and md: "movie_directors db = merge_left ms (unique_directors ms)"
    by (simp_all add: build_database_Inr)
  have names: "d_Director ` set (unique_directors ms) = Director ` set ms"
    using arg_cong [OF names_unique_directors [of ms], of set] by (simp add: set_unique)
  have "\<exists>r\<in>set (merge_left ms (unique_directors ms)). md_director_id r = Some (director_id d)"
    if "d \<in> set (unique_directors ms)" for d
  proof -
    from that names obtain m where m: "m \<in> set ms" "Director m = d_Director d" by force
    from merge_left_refers [OF that m] show ?thesis by force
  qed
  moreover have "length (unique_directors ms) = card (Director ` set ms)"
    by (simp add: length_unique_directors length_unique)
  moreover have "distinct (map d_Director (unique_directors ms))"
    by (simp add: names_unique_directors distinct_unique)
  ultimately show ?thesis unfolding d md using names by simp
qed

theorem directors_one_row_per_name_witness:
  "build_database three_movies = Inr three_store \<and>
   length (directors three_store) = card (Director ` set three_movies) \<and>
   length (directors three_store) = 2 \<and>
   distinct (map d_Director (directors three_store))"
proof -
  note t = directors_one_row_per_name [OF build_three]
  from t have n: "length (directors three_store) = card (Director ` set three_movies)"
    by (rule conjunct1)
  from t have d: "distinct (map d_Director (directors three_store))"
    by (elim conjE)
  have "length (directors three_store) = 2" by (simp add: three_store_def)
  with build_three n d show ?thesis by simp
qed

text \<open>
  The claim as stated counts director names. The same data frame has one director name
  and its table \<open>directors\<close> has two rows, one of them for the blank cell.
\<close>

lemma n_directors_blank:
  "map_sum id (\<lambda>db. length (directors db)) (build_database blank_director_movies) = Inr 2"
  by (simp add: build_database_def blank_director_movies_def genres_of_def strip_def
      isspace_def Let_def unique_directors_def unique_def enumerate_eq_zip)

theorem directors_one_row_per_name_counterexample:
  "map_sum id (\<lambda>db. length (directors db)) (build_database blank_director_movies) = Inr 2 \<and>
   card (set (director_names blank_director_movies)) = 1"
  by (simp add: n_directors_blank)
    (simp add: director_names_def blank_director_movies_def)

section \<open>Properties of the queries\<close>

subsection \<open>The toy data set\<close>

lemma round2_8: "round2 8 = 8"
  by code_simp

lemma round2_15_2: "round2 (15 / 2) = 15 / 2"
  by code_simp

lemma group_by_toy_genres:
  "q02 toy_store = [(''War'', Some 8), (''Drama'', Some (15 / 2))]"
  by (simp add: q02_def toy_store_def toy_movies_def join_genres_def group_by_def
      order_by_desc_def sql_avg_def sql_round2_def round2_8 round2_15_2)

lemma q07_toy: "q07 toy_store = []"
  by (simp add: q07_def toy_store_def toy_movies_def group_by_def order_by_desc_def)

lemma q08_toy: "q08 toy_store = [(''Drama'', 2), (''War'', 1)]"
  by (simp add: q08_def toy_store_def group_by_def order_by_desc_def)

text \<open>
  Claim C2. On the two-movie data set the loader succeeds; query 02 yields the genre
  \<open>War\<close> with average rating 8 and the genre \<open>Drama\<close> with average rating 7.5 (in this
  order, by descending average), and query 07 yields no row.
\<close>

theorem toy_dataset_queries:
  "build_database toy_movies = Inr toy_store \<and>
   q02 toy_store = [(''War'', Some 8), (''Drama'', Some (15 / 2))] \<and>
   q07 toy_store = []"
  by (simp add: build_toy group_by_toy_genres q07_toy)

subsection \<open>Query 08\<close>

lemma length_insert_desc: "length (insert_desc key x xs) = Suc (length xs)"
  by (induction xs) simp_all

lemma length_order_by_desc: "length (order_by_desc key rows) = length rows"
  unfolding order_by_desc_def by (induction rows) (simp_all add: length_insert_desc)

lemma sum_list_insert_desc:
  "sum_list (map f (insert_desc key x xs)) = (f x :: nat) + sum_list (map f xs)"
  by (induction xs) simp_all

lemma sum_list_order_by_desc:
  "sum_list (map f (order_by_desc key rows)) = (sum_list (map f rows) :: nat)"
  unfolding order_by_desc_def by (induction rows) (simp_all add: sum_list_insert_desc)

lemma sum_list_take_le: "sum_list (take n xs) \<le> (sum_list xs :: nat)"
proof -
  have "sum_list xs = sum_list (take n xs) + sum_list (drop n xs)"
    by (metis append_take_drop_id sum_list_append)
  then show ?thesis by simp
qed

lemma sum_indicator_distinct:
  "distinct ks \<Longrightarrow> a \<in> set ks \<Longrightarrow> (\<Sum>k\<leftarrow>ks. if a = k then 1 else 0) = (1::nat)"
proof (induction ks)
  case Nil
  then show ?case by simp
next
  case (Cons k ks)
  show ?case
  proof (cases "a = k")
    case True
    with Cons.prems have "\<forall>k'\<in>set ks. a \<noteq> k'" by auto
    then have "(\<Sum>k\<leftarrow>ks. if a = k then 1 else 0) = (0::nat)"
      by (induction ks) simp_all
    with True show ?thesis by simp
  next
    case False
    with Cons show ?thesis by simp
  qed
qed

lemma group_sizes:
  "distinct ks \<Longrightarrow> key ` set rows \<subseteq> set ks \<Longrightarrow>
     (\<Sum>k\<leftarrow>ks. length (filter (\<lambda>r. key r = k) rows)) = length rows"
proof (induction rows)
  case Nil
  show ?case by simp
next
  case (Cons r rows)
  have "(\<Sum>k\<leftarrow>ks. length (filter (\<lambda>r. key r = k) (r # rows))) =
      (\<Sum>k\<leftarrow>ks. (if key r = k then 1 else 0) + length (filter (\<lambda>r. key r = k) rows))"
    by (rule arg_cong [where f = sum_list]) simp
  also have "\<dots> = (\<Sum>k\<leftarrow>ks. if key r = k then 1 else 0) +
      (\<Sum>k\<leftarrow>ks. length (filter (\<lambda>r. key r = k) rows))"
    by (simp add: sum_list_addf)
  also have "\<dots> = 1 + length rows"
    using Cons by (simp add: sum_indicator_distinct)
  finally show ?case by simp
qed

lemma length_group_by: "length (group_by key rows) = card (key ` set rows)"
  by (simp add: group_by_def length_remdups_card_conv)

lemma sum_group_by: "(\<Sum>g\<leftarrow>group_by key rows. length (snd g)) = length rows"
proof -
  have "(\<Sum>g\<leftarrow>group_by key rows. length (snd g)) =
      (\<Sum>k\<leftarrow>sort (remdups (map key rows)). length (filter (\<lambda>r. key r = k) rows))"
    by (simp add: group_by_def comp_def)
  also have "\<dots> = length rows"
    by (rule group_sizes) simp_all
  finally show ?thesis .
qed

text \<open>
  Claim C6, as amended. The result of query 08 has five rows or, when the table
  \<open>movie_genres\<close> has fewer than five distinct genres, one row per distinct genre; the
  counts of its rows add up to at most the number of rows of \<open>movie_genres\<close>.
\<close>

theorem q08_rows:
  "length (q08 db) = min 5 (card (mg_Genre ` set (movie_genres db))) \<and>
   sum_list (map snd (q08 db)) \<le> length (movie_genres db)"
proof -
  define counted where
    "counted = map (\<lambda>(g, rs). (g, length rs)) (group_by mg_Genre (movie_genres db))"
  have q: "q08 db = take 5 (order_by_desc snd counted)"
    by (simp add: q08_def counted_def)
  have "length (q08 db) = min 5 (length counted)"
    by (simp add: q length_order_by_desc min.commute)
  moreover have "length counted = card (mg_Genre ` set (movie_genres db))"
    by (simp add: counted_def length_group_by)
  moreover have "sum_list (map snd (q08 db)) \<le> sum_list (map snd (order_by_desc snd counted))"
    unfolding q take_map [symmetric] by (rule sum_list_take_le)
  moreover have "sum_list (map snd counted) = length (movie_genres db)"
    using sum_group_by [of mg_Genre "movie_genres db"]
    by (simp add: counted_def comp_def case_prod_unfold)
  ultimately show ?thesis by (simp add: sum_list_order_by_desc)
qed

text \<open>
  The claim as stated asks for exactly five rows. The store of the two-movie data set
  has two genres, and query 08 returns two rows.
\<close>

theorem q08_rows_counterexample:
  "build_database toy_movies = Inr toy_store \<and> length (q08 toy_store) \<noteq> 5"
  by (simp add: build_toy q08_toy)

subsection \<open>Query 10\<close>










section \<open>Properties of the download\<close>

text \<open>
  Claim C8. When the file is there already, \<open>download_csv\<close> returns normally, requests
  nothing and leaves every file as it is (it only prints a message). After a run that
  returned normally the file is there, so a second run, whatever the remote end would
  serve, requests nothing and changes no file.
\<close>

theorem download_csv_idempotent:
  "(files w csv_path \<noteq> None \<longrightarrow>
      download_csv net csv_path w = (Inr (), print (AlreadyPresent csv_path) w) \<and>
      files (snd (download_csv net csv_path w)) = files w \<and>
      requests (snd (download_csv net csv_path w)) = requests w) \<and>
   (fst (download_csv net csv_path w) = Inr () \<longrightarrow>
      files (snd (download_csv net csv_path w)) csv_path \<noteq> None \<and>
      fst (download_csv net' csv_path (snd (download_csv net csv_path w))) = Inr () \<and>
      files (snd (download_csv net' csv_path (snd (download_csv net csv_path w)))) =
        files (snd (download_csv net csv_path w)) \<and>
      requests (snd (download_csv net' csv_path (snd (download_csv net csv_path w)))) =
        requests (snd (download_csv net csv_path w)))"
proof -
  have present: "download_csv n csv_path v = (Inr (), print (AlreadyPresent csv_path) v)"
    if "files v csv_path \<noteq> None" for n v
    using that by (simp add: download_csv_def)
  have after: "files (snd (download_csv net csv_path w)) csv_path \<noteq> None"
    if "fst (download_csv net csv_path w) = Inr ()"
    using that
    by (auto simp: download_csv_def Let_def print_def write_file_def split: sum.splits if_splits)
  show ?thesis
    using present [of w net] present [OF after, of net'] after
    by (auto simp: print_def)
qed

theorem download_csv_idempotent_witness:
  "files present_world ''data.csv'' \<noteq> None \<and>
   files (snd (download_csv (serving ''other'') ''data.csv'' present_world)) =
     files present_world \<and>
   requests (snd (download_csv (serving ''other'') ''data.csv'' present_world)) = [] \<and>
   fst (download_csv (serving ''Rank,Title'') ''data.csv'' empty_world) = Inr () \<and>
   files (snd (download_csv (serving ''Rank,Title'') ''data.csv'' empty_world)) ''data.csv'' =
     Some ''Rank,Title'' \<and>
   requests (snd (download_csv (serving ''other'') ''data.csv''
       (snd (download_csv (serving ''Rank,Title'') ''data.csv'' empty_world)))) = [REPO_URL] \<and>
   files (snd (download_csv (serving ''other'') ''data.csv''
       (snd (download_csv (serving ''Rank,Title'') ''data.csv'' empty_world)))) ''data.csv'' =
     Some ''Rank,Title''"
proof -
  have there: "files present_world ''data.csv'' \<noteq> None"
    by (simp add: present_world_def)
  have first: "download_csv (serving ''Rank,Title'') ''data.csv'' empty_world =
      (Inr (), \<lparr>files = [''data.csv'' \<mapsto> ''Rank,Title''], requests = [REPO_URL],
                stdout = [Downloading ''data.csv'', DownloadComplete]\<rparr>)"
    by (simp add: download_csv_def empty_world_def serving_def Let_def print_def write_file_def)
  from download_csv_idempotent
    [of empty_world "''data.csv''" "serving ''Rank,Title''" "serving ''other''"]
  have second: "requests (snd (download_csv (serving ''other'') ''data.csv''
       (snd (download_csv (serving ''Rank,Title'') ''data.csv'' empty_world)))) = [REPO_URL] \<and>
     files (snd (download_csv (serving ''other'') ''data.csv''
       (snd (download_csv (serving ''Rank,Title'') ''data.csv'' empty_world)))) ''data.csv'' =
     Some ''Rank,Title''"
    by (simp add: first)
  from download_csv_idempotent
    [of present_world "''data.csv''" "serving ''other''" "serving ''other''"] there
  have "files (snd (download_csv (serving ''other'') ''data.csv'' present_world)) =
     files present_world \<and>
     requests (snd (download_csv (serving ''other'') ''data.csv'' present_world)) =
     requests present_world"
    by blast
  moreover have "requests present_world = []"
    by (simp add: present_world_def)
  ultimately show ?thesis using there second by (simp add: first)
qed

section \<open>Properties of the reporter\<close>

lemma query_names:
  "map fst queries =
    [''01_top_10_highest_rated.sql'', ''02_average_rating_per_genre.sql'',
     ''03_movies_count_per_director.sql'', ''04_movies_count_per_year.sql'',
     ''05_top_movie_per_year.sql'', ''06_top_5_revenue_per_year.sql'',
     ''07_avg_revenue_per_director.sql'', ''08_top_5_genres_by_count.sql'',
     ''09_avg_runtime_per_genre.sql'', ''10_avg_rating_per_decade.sql'',
     ''11_top_3_movies_per_genre.sql'']"
  by (simp add: queries_def)

lemma length_queries: "length queries = 11"
  using arg_cong [OF query_names, of length] by simp

lemma artefact_names_queries:
  "concat (map artefact_names (map fst queries)) =
    [''01_top_10_highest_rated.sql'', ''01_top_10_highest_rated.csv'',
     ''01_top_10_highest_rated.png'',
     ''02_average_rating_per_genre.sql'', ''02_average_rating_per_genre.csv'',
     ''02_average_rating_per_genre.png'',
     ''03_movies_count_per_director.sql'', ''03_movies_count_per_director.csv'',
     ''03_movies_count_per_director.png'',
     ''04_movies_count_per_year.sql'', ''04_movies_count_per_year.csv'',
     ''04_movies_count_per_year.png'',
     ''05_top_movie_per_year.sql'', ''05_top_movie_per_year.csv'',
     ''05_top_movie_per_year.png'',
     ''06_top_5_revenue_per_year.sql'', ''06_top_5_revenue_per_year.csv'',
     ''06_top_5_revenue_per_year.png'',
     ''07_avg_revenue_per_director.sql'', ''07_avg_revenue_per_director.csv'',
     ''07_avg_revenue_per_director.png'',
     ''08_top_5_genres_by_count.sql'', ''08_top_5_genres_by_count.csv'',
     ''08_top_5_genres_by_count.png'',
     ''09_avg_runtime_per_genre.sql'', ''09_avg_runtime_per_genre.csv'',
     ''09_avg_runtime_per_genre.png'',
     ''10_avg_rating_per_decade.sql'', ''10_avg_rating_per_decade.csv'',
     ''10_avg_rating_per_decade.png'',
     ''11_top_3_movies_per_genre.sql'', ''11_top_3_movies_per_genre.csv'',
     ''11_top_3_movies_per_genre.png'']"
  unfolding query_names by (simp add: artefact_names_def)

lemma distinct_artefact_names: "distinct (concat (map artefact_names (map fst queries)))"
  unfolding artefact_names_queries by simp

lemma distinct_query_names: "distinct (map fst queries)"
  unfolding query_names by simp

lemma path_join_eq: "path_join dir a = path_join dir b \<longleftrightarrow> a = b"
  by (simp add: path_join_def)

lemma path_join_neq_dir: "path_join dir a \<noteq> dir"
  by (simp add: path_join_def)

lemma files_write_file:
  "files (write_file p c w) p' = (if p' = p then Some c else files w p')"
  by (simp add: write_file_def)

lemma save_file_cases:
  obtains (open_raises) e where "save_file sys p c w = (Inl e, w)"
  | (write_raises) e where "save_file sys p c w = (Inl e, write_file p [] w)"
  | (saved) "save_file sys p c w = (Inr (), write_file p c w)"
proof (cases "open_fault sys p")
  case (Some e)
  then have "save_file sys p c w = (Inl e, w)" by (simp add: save_file_def)
  then show thesis by (rule open_raises)
next
  case None
  show thesis
  proof (cases "write_fault sys p")
    case (Some e)
    with None have "save_file sys p c w = (Inl e, write_file p [] w)"
      by (simp add: save_file_def)
    then show thesis by (rule write_raises)
  next
    case none: None
    with None have "save_file sys p c w = (Inr (), write_file p c w)"
      by (simp add: save_file_def)
    then show thesis by (rule saved)
  qed
qed

lemma save_file_other: "p' \<noteq> p \<Longrightarrow> files (snd (save_file sys p c w)) p' = files w p'"
  by (cases rule: save_file_cases [of sys p c w]) (simp_all add: files_write_file)

lemma save_file_keeps:
  "files w p' \<noteq> None \<Longrightarrow> files (snd (save_file sys p c w)) p' \<noteq> None"
  by (cases rule: save_file_cases [of sys p c w]) (simp_all add: files_write_file)

lemma save_file_ok:
  "fst (save_file sys p c w) = Inr u \<Longrightarrow> save_file sys p c w = (Inr (), write_file p c w)"
  by (cases rule: save_file_cases [of sys p c w]) simp_all

lemma save_file_world:
  "fst (save_file sys p c w) = fst (save_file sys p c v) \<and>
   files (snd (save_file sys p c w)) = files w ++ files (snd (save_file sys p c (v\<lparr>files := Map.empty\<rparr>)))"
  by (auto simp: save_file_def write_file_def split: option.splits)

lemma run_query_other:
  "p \<notin> set (artefacts dir (fst q)) \<Longrightarrow>
   files (snd (run_query sys eng dir q w)) p = files w p"
  by (auto simp: run_query_def Let_def artefacts_def artefact_names_def save_file_def
      files_write_file split: option.splits sum.splits prod.splits)

lemma run_query_keeps:
  "files w p \<noteq> None \<Longrightarrow> files (snd (run_query sys eng dir q w)) p \<noteq> None"
  by (auto simp: run_query_def Let_def save_file_def
      files_write_file split: option.splits sum.splits prod.splits)

lemma run_query_ok_written:
  "fst (run_query sys eng dir q w) = Inr u \<Longrightarrow> p \<in> set (artefacts dir (fst q)) \<Longrightarrow>
   files (snd (run_query sys eng dir q w)) p \<noteq> None"
  by (auto simp: run_query_def Let_def artefacts_def artefact_names_def save_file_def
      files_write_file split: option.splits sum.splits prod.splits if_splits)

lemma run_query_execute:
  "fst (run_query sys eng dir q w) = Inl (Execute, f, e) \<Longrightarrow>
   f = fst q \<and>
   files (snd (run_query sys eng dir q w)) =
     (files w)(path_join dir (fst q) \<mapsto> strip (snd q) @ ''\<newline>'')"
  by (auto simp: run_query_def Let_def save_file_def write_file_def
      split: option.splits sum.splits prod.splits if_splits)

lemma run_query_world:
  "fst (run_query sys eng dir q w) = fst (run_query sys eng dir q empty_world) \<and>
   files (snd (run_query sys eng dir q w)) =
     files w ++ files (snd (run_query sys eng dir q empty_world))"
  by (auto simp: run_query_def Let_def save_file_def write_file_def empty_world_def
      split: option.splits sum.splits prod.splits if_splits)

lemma run_loop_Cons_ok:
  "fst (run_query sys eng dir q w) = Inr u \<Longrightarrow>
   run_loop sys eng dir (q # rest) w = run_loop sys eng dir rest (snd (run_query sys eng dir q w))"
  by (cases "run_query sys eng dir q w") simp

lemma run_loop_Cons_fail:
  "fst (run_query sys eng dir q w) = Inl f \<Longrightarrow>
   run_loop sys eng dir (q # rest) w = (Inl f, snd (run_query sys eng dir q w))"
  by (cases "run_query sys eng dir q w") simp

lemma run_loop_other:
  "p \<notin> (\<Union>q\<in>set qs. set (artefacts dir (fst q))) \<Longrightarrow>
   files (snd (run_loop sys eng dir qs w)) p = files w p"
proof (induction qs arbitrary: w)
  case Nil
  show ?case by simp
next
  case (Cons q qs)
  from Cons.prems have here: "p \<notin> set (artefacts dir (fst q))"
    and rest: "p \<notin> (\<Union>q\<in>set qs. set (artefacts dir (fst q)))" by simp_all
  show ?case
  proof (cases "fst (run_query sys eng dir q w)")
    case (Inl f)
    show ?thesis
      unfolding run_loop_Cons_fail [OF Inl] using here by (simp add: run_query_other)
  next
    case (Inr u)
    show ?thesis
      unfolding run_loop_Cons_ok [OF Inr] Cons.IH [OF rest] using here
      by (rule run_query_other)
  qed
qed

lemma run_loop_keeps:
  "files w p \<noteq> None \<Longrightarrow> files (snd (run_loop sys eng dir qs w)) p \<noteq> None"
proof (induction qs arbitrary: w)
  case Nil
  then show ?case by simp
next
  case (Cons q qs)
  from Cons.prems have step: "files (snd (run_query sys eng dir q w)) p \<noteq> None"
    by (rule run_query_keeps)
  show ?case
  proof (cases "fst (run_query sys eng dir q w)")
    case (Inl f)
    show ?thesis unfolding run_loop_Cons_fail [OF Inl] using step by simp
  next
    case (Inr u)
    show ?thesis unfolding run_loop_Cons_ok [OF Inr] using step by (rule Cons.IH)
  qed
qed

lemma run_loop_ok_written:
  "fst (run_loop sys eng dir qs w) = Inr u \<Longrightarrow> q \<in> set qs \<Longrightarrow>
   p \<in> set (artefacts dir (fst q)) \<Longrightarrow> files (snd (run_loop sys eng dir qs w)) p \<noteq> None"
proof (induction qs arbitrary: w)
  case Nil
  then show ?case by simp
next
  case (Cons q' qs)
  show ?case
  proof (cases "fst (run_query sys eng dir q' w)")
    case (Inl f)
    from Cons.prems(1) show ?thesis unfolding run_loop_Cons_fail [OF Inl] by simp
  next
    case (Inr v)
    note step = run_loop_Cons_ok [OF Inr]
    from Cons.prems(1) have ok: "fst (run_loop sys eng dir qs (snd (run_query sys eng dir q' w))) = Inr u"
      unfolding step .
    show ?thesis
    proof (cases "q = q'")
      case True
      with Cons.prems(3) have "files (snd (run_query sys eng dir q' w)) p \<noteq> None"
        using run_query_ok_written [OF Inr] by simp
      then show ?thesis unfolding step by (rule run_loop_keeps)
    next
      case False
      with Cons.prems(2) have "q \<in> set qs" by simp
      from Cons.IH [OF ok this Cons.prems(3)] show ?thesis unfolding step .
    qed
  qed
qed

lemma run_loop_execute:
  "fst (run_loop sys eng dir qs w) = Inl (Execute, f, e) \<Longrightarrow>
   \<exists>pre sql post. qs = pre @ (f, sql) # post \<and>
     fst (run_loop sys eng dir pre w) = Inr () \<and>
     files (snd (run_loop sys eng dir qs w)) =
       (files (snd (run_loop sys eng dir pre w)))(path_join dir f \<mapsto> strip sql @ ''\<newline>'')"
proof (induction qs arbitrary: w)
  case Nil
  then show ?case by simp
next
  case (Cons q qs)
  show ?case
  proof (cases "fst (run_query sys eng dir q w)")
    case (Inl f')
    note step = run_loop_Cons_fail [OF Inl]
    from Cons.prems Inl have "fst (run_query sys eng dir q w) = Inl (Execute, f, e)"
      unfolding step by simp
    from run_query_execute [OF this]
    have "q = (f, snd q)"
      and "files (snd (run_query sys eng dir q w)) =
        (files w)(path_join dir f \<mapsto> strip (snd q) @ ''\<newline>'')"
      by (simp_all add: prod_eq_iff)
    then have "q # qs = [] @ (f, snd q) # qs \<and>
        fst (run_loop sys eng dir [] w) = Inr () \<and>
        files (snd (run_loop sys eng dir (q # qs) w)) =
          (files (snd (run_loop sys eng dir [] w)))(path_join dir f \<mapsto> strip (snd q) @ ''\<newline>'')"
      unfolding step by simp
    then show ?thesis by blast
  next
    case (Inr u)
    note step = run_loop_Cons_ok [OF Inr]
    define w1 where "w1 = snd (run_query sys eng dir q w)"
    from Cons.prems have "fst (run_loop sys eng dir qs w1) = Inl (Execute, f, e)"
      unfolding step w1_def .
    from Cons.IH [OF this] obtain pre sql post where
      qs: "qs = pre @ (f, sql) # post"
      and ok: "fst (run_loop sys eng dir pre w1) = Inr ()"
      and fs: "files (snd (run_loop sys eng dir qs w1)) =
        (files (snd (run_loop sys eng dir pre w1)))(path_join dir f \<mapsto> strip sql @ ''\<newline>'')"
      by blast
    have "q # qs = (q # pre) @ (f, sql) # post \<and>
        fst (run_loop sys eng dir (q # pre) w) = Inr () \<and>
        files (snd (run_loop sys eng dir (q # qs) w)) =
          (files (snd (run_loop sys eng dir (q # pre) w)))(path_join dir f \<mapsto> strip sql @ ''\<newline>'')"
      using qs ok fs unfolding append_Cons step w1_def by simp
    then show ?thesis by blast
  qed
qed

lemma map_add_twice: "(f ++ g) ++ g = f ++ g"
  by (rule ext) (simp add: map_add_def split: option.splits)

lemma run_loop_world:
  "fst (run_loop sys eng dir qs w) = fst (run_loop sys eng dir qs empty_world) \<and>
   files (snd (run_loop sys eng dir qs w)) =
     files w ++ files (snd (run_loop sys eng dir qs empty_world))"
proof (induction qs arbitrary: w)
  case Nil
  show ?case by (simp add: empty_world_def)
next
  case (Cons q qs)
  note here = run_query_world [of sys eng dir q w]
  show ?case
  proof (cases "fst (run_query sys eng dir q empty_world)")
    case (Inl f)
    with here have fail: "fst (run_query sys eng dir q w) = Inl f" by simp
    from here show ?thesis
      unfolding run_loop_Cons_fail [OF fail] run_loop_Cons_fail [OF Inl] by simp
  next
    case (Inr u)
    with here have "fst (run_query sys eng dir q w) = Inr u" by simp
    note a = run_loop_Cons_ok [OF this] and b = run_loop_Cons_ok [OF Inr]
    note i1 = Cons.IH [of "snd (run_query sys eng dir q w)"]
      and i2 = Cons.IH [of "snd (run_query sys eng dir q empty_world)"]
    have "fst (run_loop sys eng dir (q # qs) w) = fst (run_loop sys eng dir (q # qs) empty_world)"
      unfolding a b using i1 i2 by simp
    moreover have "files (snd (run_loop sys eng dir (q # qs) w)) =
        files w ++ files (snd (run_loop sys eng dir (q # qs) empty_world))"
    proof -
      have "files (snd (run_loop sys eng dir qs (snd (run_query sys eng dir q w)))) =
          (files w ++ files (snd (run_query sys eng dir q empty_world))) ++
          files (snd (run_loop sys eng dir qs empty_world))"
        using i1 here by simp
      also have "\<dots> = files w ++ files (snd (run_loop sys eng dir qs
          (snd (run_query sys eng dir q empty_world))))"
        using i2 by (simp add: map_add_assoc)
      finally show ?thesis unfolding a b .
    qed
    ultimately show ?thesis by simp
  qed
qed

lemma run_queries_loop:
  assumes "fst (run_queries sys eng dir w) = Inl (Execute, f, e)"
  shows "fst (run_loop sys eng dir queries w) = Inl (Execute, f, e) \<and>
    files (snd (run_queries sys eng dir w)) = files (snd (run_loop sys eng dir queries w))"
  using assms
  by (auto simp: run_queries_def split: if_splits option.splits prod.splits sum.splits)

lemma run_queries_mkdir_ok:
  assumes "files w dir = None" and "mkdir_fault sys dir = None" and "connect eng = None"
  shows "fst (run_queries sys eng dir w) = fst (run_loop sys eng dir queries w) \<and>
    files (snd (run_queries sys eng dir w)) = files (snd (run_loop sys eng dir queries w))"
  using assms
  by (auto simp: run_queries_def print_def split: prod.splits sum.splits)

lemma run_queries_mkdir_raises:
  assumes "files w dir \<noteq> None \<or> mkdir_fault sys dir \<noteq> None \<or> connect eng \<noteq> None"
  shows "\<exists>f. run_queries sys eng dir w = (Inl f, w)"
  using assms by (auto simp: run_queries_def split: option.splits)

text \<open>
  Claim C10, as amended. The SQL text of a query is written before the query is
  executed: when the run ends because the execution of the \<open>k\<close>-th query raises, the
  three files of every earlier query exist, the \<open>.sql\<close> file of the \<open>k\<close>-th query
  exists with its text, and the \<open>.csv\<close> and \<open>.png\<close> files of the \<open>k\<close>-th query are as
  they were before the run: absent if they were absent, and still there if an earlier
  run had left them.
\<close>

theorem run_queries_abort:
  assumes k: "k < length queries"
    and abort: "fst (run_queries sys eng dir w) = Inl (Execute, fst (queries ! k), e)"
  shows "(\<forall>i<k. \<forall>p\<in>set (artefacts dir (fst (queries ! i))).
        files (snd (run_queries sys eng dir w)) p \<noteq> None) \<and>
    files (snd (run_queries sys eng dir w)) (path_join dir (fst (queries ! k))) =
      Some (strip (snd (queries ! k)) @ ''\<newline>'') \<and>
    files (snd (run_queries sys eng dir w)) (csv_of dir (fst (queries ! k))) =
      files w (csv_of dir (fst (queries ! k))) \<and>
    files (snd (run_queries sys eng dir w)) (png_of dir (fst (queries ! k))) =
      files w (png_of dir (fst (queries ! k)))"
proof -
  define f where "f = fst (queries ! k)"
  from run_queries_loop [OF abort]
  have loop: "fst (run_loop sys eng dir queries w) = Inl (Execute, f, e)"
    and same: "files (snd (run_queries sys eng dir w)) = files (snd (run_loop sys eng dir queries w))"
    by (simp_all add: f_def)
  from run_loop_execute [OF loop] obtain pre sql post where
    split: "queries = pre @ (f, sql) # post"
    and ok: "fst (run_loop sys eng dir pre w) = Inr ()"
    and fs: "files (snd (run_loop sys eng dir queries w)) =
      (files (snd (run_loop sys eng dir pre w)))(path_join dir f \<mapsto> strip sql @ ''\<newline>'')"
    by blast
  define w1 where "w1 = snd (run_loop sys eng dir pre w)"
  have at: "map fst queries ! length pre = f"
    by (subst split) (simp add: nth_append)
  have a: "length pre < length (map fst queries)"
    by (subst split) simp
  have b: "k < length (map fst queries)" using k by simp
  have "map fst queries ! k = f" using k by (simp add: f_def)
  with at have c: "map fst queries ! length pre = map fst queries ! k" by simp
  have len: "length pre = k"
    by (rule iffD1 [OF nth_eq_iff_index_eq [OF distinct_query_names a b] c])
  have qk: "queries ! k = (f, sql)"
    by (subst split) (simp add: len [symmetric])
  have pre: "pre = take k queries"
    by (subst split) (simp add: len [symmetric])
  have dist: "distinct (concat (map artefact_names (map fst pre)) @ artefact_names f @
      concat (map artefact_names (map fst post)))"
    using distinct_artefact_names by (subst (asm) split) simp
  have own: "replace_sql ''.csv'' f \<noteq> f" "replace_sql ''.png'' f \<noteq> f"
    using dist by (auto simp: artefact_names_def)
  have other: "path_join dir n \<notin> (\<Union>q\<in>set pre. set (artefacts dir (fst q)))"
    if "n \<in> set (artefact_names f)" for n
    using dist that by (auto simp: artefacts_def path_join_eq)
  have csv: "files w1 (csv_of dir f) = files w (csv_of dir f)"
    unfolding w1_def csv_of_def
    by (rule run_loop_other, rule other) (simp add: artefact_names_def)
  have png: "files w1 (png_of dir f) = files w (png_of dir f)"
    unfolding w1_def png_of_def
    by (rule run_loop_other, rule other) (simp add: artefact_names_def)
  have earlier: "files (snd (run_queries sys eng dir w)) p \<noteq> None"
    if "i < k" and "p \<in> set (artefacts dir (fst (queries ! i)))" for i p
  proof -
    from that(1) k have "queries ! i \<in> set pre"
      by (auto simp: pre in_set_conv_nth intro!: exI [of _ i])
    from run_loop_ok_written [OF ok this that(2)]
    have "files w1 p \<noteq> None" by (simp add: w1_def)
    then show ?thesis by (simp add: same fs w1_def)
  qed
  show ?thesis
    using earlier csv png own
    by (simp add: same fs qk w1_def [symmetric] csv_of_def png_of_def path_join_eq f_def [symmetric])
qed

lemma strip_first_query: "take 18 (strip (snd (queries ! 0))) = ''SELECT Title, Year''"
  by (simp add: queries_def strip_def isspace_def)

lemma strip_second_query: "take 18 (strip (snd (queries ! 1))) = ''SELECT mg.Genre, R''"
  by (simp add: queries_def strip_def isspace_def)

lemma run_query_no_faults_ok:
  assumes "read_sql eng (strip (snd q)) = Inr df" and "len eng df \<noteq> 0"
    and "savefig eng df = Inr png"
  shows "fst (run_query no_faults eng dir q w) = Inr ()"
  using assms by (simp add: run_query_def no_faults_def save_file_def Let_def)

lemma run_query_no_faults_raises:
  assumes "read_sql eng (strip (snd q)) = Inl e"
  shows "fst (run_query no_faults eng dir q w) = Inl (Execute, fst q, e)"
  using assms by (simp add: run_query_def no_faults_def save_file_def Let_def)

lemma queries_first: "queries = queries ! 0 # tl queries"
proof -
  have "queries \<noteq> []" using length_queries by auto
  then show ?thesis by (simp add: hd_conv_nth [symmetric])
qed

lemma tl_second: "1 < length xs \<Longrightarrow> tl xs = xs ! 1 # tl (tl xs)"
  by (cases xs; cases "tl xs") auto

lemma queries_second: "tl queries = queries ! 1 # tl (tl queries)"
  by (rule tl_second) (simp add: length_queries)

lemma first_query_name: "fst (queries ! 0) = ''01_top_10_highest_rated.sql''"
  using arg_cong [OF query_names, of "\<lambda>xs. xs ! 0"] length_queries by (simp add: nth_map)

lemma second_query_name: "fst (queries ! 1) = ''02_average_rating_per_genre.sql''"
  using arg_cong [OF query_names, of "\<lambda>xs. xs ! 1"] length_queries by (simp add: nth_map)

theorem run_queries_abort_witness:
  "(1::nat) < length queries \<and>
   fst (run_queries no_faults first_only_engine ''out'' empty_world) =
     Inl (Execute, fst (queries ! 1), QueryError) \<and>
   files (snd (run_queries no_faults first_only_engine ''out'' empty_world))
     ''out/01_top_10_highest_rated.png'' \<noteq> None \<and>
   files (snd (run_queries no_faults first_only_engine ''out'' empty_world))
     (path_join ''out'' (fst (queries ! 1))) = Some (strip (snd (queries ! 1)) @ ''\<newline>'') \<and>
   files (snd (run_queries no_faults first_only_engine ''out'' empty_world))
     (csv_of ''out'' (fst (queries ! 1))) = None"
proof -
  have k: "(1::nat) < length queries" by (simp add: length_queries)
  have "read_sql first_only_engine (strip (snd (queries ! 0))) = Inr ()"
    by (simp add: first_only_engine_def strip_first_query)
  then have ok: "fst (run_query no_faults first_only_engine ''out'' (queries ! 0) w) = Inr ()" for w
    by (rule run_query_no_faults_ok) (simp_all add: first_only_engine_def)
  have "read_sql first_only_engine (strip (snd (queries ! 1))) = Inl QueryError"
    using strip_second_query by (simp add: first_only_engine_def)
  note bad = run_query_no_faults_raises [OF this]
  have "fst (run_loop no_faults first_only_engine ''out'' queries empty_world) =
      Inl (Execute, fst (queries ! 1), QueryError)"
    by (subst queries_first, subst run_loop_Cons_ok [OF ok], subst queries_second,
        subst run_loop_Cons_fail [OF bad]) simp
  moreover have "files empty_world ''out'' = None" "mkdir_fault no_faults ''out'' = None"
    "connect first_only_engine = None"
    by (simp_all add: empty_world_def no_faults_def first_only_engine_def)
  ultimately have abort: "fst (run_queries no_faults first_only_engine ''out'' empty_world) =
      Inl (Execute, fst (queries ! 1), QueryError)"
    using run_queries_mkdir_ok [of empty_world "''out''" no_faults first_only_engine] by simp
  note t = run_queries_abort [OF k abort]
  from t have "\<forall>p\<in>set (artefacts ''out'' (fst (queries ! 0))).
      files (snd (run_queries no_faults first_only_engine ''out'' empty_world)) p \<noteq> None"
    by simp
  then have png: "files (snd (run_queries no_faults first_only_engine ''out'' empty_world))
      ''out/01_top_10_highest_rated.png'' \<noteq> None"
    by (simp add: first_query_name artefacts_def artefact_names_def path_join_def)
  from t k abort png show ?thesis by (simp add: empty_world_def)
qed

text \<open>
  The claim as stated says that the \<open>.csv\<close> file of the failing query does not exist.
  When the output directory holds the CSV of query 1 from an earlier run and the
  execution of query 1 raises, the file is still there after the run.
\<close>

theorem run_queries_abort_counterexample:
  "fst (run_queries no_faults failing_engine ''out'' stale_world) =
     Inl (Execute, ''01_top_10_highest_rated.sql'', QueryError) \<and>
   csv_of ''out'' ''01_top_10_highest_rated.sql'' = ''out/01_top_10_highest_rated.csv'' \<and>
   files (snd (run_queries no_faults failing_engine ''out'' stale_world))
     ''out/01_top_10_highest_rated.csv'' = Some ''Title,Year,Rating''"
proof -
  have f: "read_sql failing_engine (strip (snd (queries ! 0))) = Inl QueryError"
    by (simp add: failing_engine_def)
  note r = run_query_no_faults_raises [OF f, of "''out''" stale_world]
  have loop: "run_loop no_faults failing_engine ''out'' queries stale_world =
      (Inl (Execute, ''01_top_10_highest_rated.sql'', QueryError),
       snd (run_query no_faults failing_engine ''out'' (queries ! 0) stale_world))"
    by (subst queries_first) (simp only: run_loop_Cons_fail [OF r] first_query_name)
  have mk: "files stale_world ''out'' = None" "mkdir_fault no_faults ''out'' = None"
    "connect failing_engine = None"
    by (simp_all add: stale_world_def no_faults_def failing_engine_def)
  from run_query_execute [OF r]
  have "files (snd (run_query no_faults failing_engine ''out'' (queries ! 0) stale_world))
      ''out/01_top_10_highest_rated.csv'' = Some ''Title,Year,Rating''"
    by (simp add: first_query_name path_join_def stale_world_def)
  then show ?thesis
    using run_queries_mkdir_ok [OF mk]
    by (simp add: loop csv_of_def path_join_def)
qed

section \<open>Properties of the pipeline\<close>

lemma build_database_over_eq: "build_database_over old ms = build_database ms"
  by (cases old) (simp add: build_database_over_def build_database_def Let_def)

lemma run_queries_keeps_dir: "files (snd (run_queries sys eng dir w)) dir = files w dir"
proof (cases "files w dir \<noteq> None \<or> mkdir_fault sys dir \<noteq> None \<or> connect eng \<noteq> None")
  case True
  from run_queries_mkdir_raises [OF this] show ?thesis by auto
next
  case False
  then have mk: "files w dir = None" "mkdir_fault sys dir = None" "connect eng = None"
    by simp_all
  have "dir \<notin> (\<Union>q\<in>set queries. set (artefacts dir (fst q)))"
    by (auto simp: artefacts_def path_join_neq_dir [symmetric])
  from run_loop_other [OF this] run_queries_mkdir_ok [OF mk]
  show ?thesis by simp
qed

lemma run_queries_rerun:
  "fst (run_queries sys eng dir (snd (run_queries sys eng dir w))) =
     fst (run_queries sys eng dir w) \<and>
   files (snd (run_queries sys eng dir (snd (run_queries sys eng dir w)))) =
     files (snd (run_queries sys eng dir w))"
proof (cases "files w dir \<noteq> None \<or> mkdir_fault sys dir \<noteq> None \<or> connect eng \<noteq> None")
  case True
  from run_queries_mkdir_raises [OF this] obtain f
    where r: "run_queries sys eng dir w = (Inl f, w)" by blast
  then show ?thesis by simp
next
  case False
  then have mk: "files w dir = None" "mkdir_fault sys dir = None" "connect eng = None"
    by simp_all
  define w1 where "w1 = snd (run_queries sys eng dir w)"
  have "files w1 dir = None"
    unfolding w1_def using mk by (simp add: run_queries_keeps_dir)
  note second = run_queries_mkdir_ok [OF this mk(2) mk(3)]
  note first = run_queries_mkdir_ok [OF mk]
  note a = run_loop_world [of sys eng dir queries w]
    and b = run_loop_world [of sys eng dir queries w1]
  have "fst (run_queries sys eng dir w1) = fst (run_queries sys eng dir w)"
    using first second a b by simp
  moreover have "files w1 = files w ++ files (snd (run_loop sys eng dir queries empty_world))"
    unfolding w1_def using first a by simp
  then have "files (snd (run_queries sys eng dir w1)) = files w1"
    using second b by (simp add: map_add_twice)
  ultimately show ?thesis by (simp add: w1_def)
qed

lemma run_queries_csv:
  assumes ok: "fst (run_queries sys eng dir w) = Inr ()" and q: "q \<in> set queries"
  shows "files (snd (run_queries sys eng dir w)) (csv_of dir (fst q)) \<noteq> None \<and>
    files (snd (run_queries sys eng dir w)) (csv_of dir (fst q)) =
      files (snd (run_loop sys eng dir queries empty_world)) (csv_of dir (fst q))"
proof -
  have "\<not> (files w dir \<noteq> None \<or> mkdir_fault sys dir \<noteq> None \<or> connect eng \<noteq> None)"
  proof
    assume "files w dir \<noteq> None \<or> mkdir_fault sys dir \<noteq> None \<or> connect eng \<noteq> None"
    from run_queries_mkdir_raises [OF this] ok show False by auto
  qed
  then have mk: "files w dir = None" "mkdir_fault sys dir = None" "connect eng = None"
    by simp_all
  note first = run_queries_mkdir_ok [OF mk]
  note a = run_loop_world [of sys eng dir queries w]
  from ok first a have "fst (run_loop sys eng dir queries empty_world) = Inr ()" by simp
  from run_loop_ok_written [OF this q, of "csv_of dir (fst q)"]
  have "files (snd (run_loop sys eng dir queries empty_world)) (csv_of dir (fst q)) \<noteq> None"
    by (simp add: artefacts_def artefact_names_def csv_of_def)
  then show ?thesis using first a by (auto simp: map_add_def)
qed

text \<open>
  Claim C1. For a fixed data set, engine and operating system, a second run of the
  pipeline on what the first run left (whatever the database file holds by then) ends
  as the first run did and leaves every file as the first run left it. Two runs that
  return normally, from any two database files and any two worlds, both write each of
  the eleven \<open>.csv\<close> files, with the same content.
\<close>

theorem pipeline_deterministic:
  "fst (pipeline sys eng dir ms old' (snd (pipeline sys eng dir ms old w))) =
     fst (pipeline sys eng dir ms old w) \<and>
   files (snd (pipeline sys eng dir ms old' (snd (pipeline sys eng dir ms old w)))) =
     files (snd (pipeline sys eng dir ms old w)) \<and>
   (fst (pipeline sys eng dir ms old w) = Inr () \<and>
    fst (pipeline sys eng dir ms old' w') = Inr () \<longrightarrow>
      (\<forall>q\<in>set queries.
         files (snd (pipeline sys eng dir ms old w)) (csv_of dir (fst q)) \<noteq> None \<and>
         files (snd (pipeline sys eng dir ms old w)) (csv_of dir (fst q)) =
           files (snd (pipeline sys eng dir ms old' w')) (csv_of dir (fst q))))"
proof (cases "build_database ms")
  case (Inl e)
  then show ?thesis by (simp add: pipeline_def build_database_over_eq)
next
  case (Inr db)
  have p: "pipeline sys eng dir ms s v = run_queries sys (eng db) dir v" for s v
    by (simp add: pipeline_def build_database_over_eq Inr)
  have "files (snd (run_queries sys (eng db) dir w)) (csv_of dir (fst q)) \<noteq> None \<and>
        files (snd (run_queries sys (eng db) dir w)) (csv_of dir (fst q)) =
        files (snd (run_queries sys (eng db) dir w')) (csv_of dir (fst q))"
    if "fst (run_queries sys (eng db) dir w) = Inr ()"
      and "fst (run_queries sys (eng db) dir w') = Inr ()" and "q \<in> set queries" for q
  proof -
    note A = run_queries_csv [OF that(1) that(3)] and B = run_queries_csv [OF that(2) that(3)]
    have "files (snd (run_queries sys (eng db) dir w)) (csv_of dir (fst q)) =
        files (snd (run_queries sys (eng db) dir w')) (csv_of dir (fst q))"
      by (rule trans [OF conjunct2 [OF A] sym [OF conjunct2 [OF B]]])
    with conjunct1 [OF A] show ?thesis by (rule conjI)
  qed
  then show ?thesis
    unfolding p using run_queries_rerun [of sys "eng db" dir w] by blast
qed

lemma run_loop_all_ok:
  "\<forall>q\<in>set qs. fst (run_query sys eng dir q empty_world) = Inr () \<Longrightarrow>
   fst (run_loop sys eng dir qs w) = Inr ()"
proof (induction qs arbitrary: w)
  case Nil
  show ?case by simp
next
  case (Cons q qs)
  from Cons.prems have "fst (run_query sys eng dir q w) = Inr ()"
    using run_query_world [of sys eng dir q w] by simp
  note step = run_loop_Cons_ok [OF this]
  from Cons.prems have "\<forall>q\<in>set qs. fst (run_query sys eng dir q empty_world) = Inr ()"
    by simp
  from Cons.IH [OF this] show ?case unfolding step .
qed

lemma pipeline_one_row:
  assumes "files w ''out'' = None"
  shows "fst (pipeline no_faults (\<lambda>db. one_row_engine) ''out'' toy_movies old w) = Inr ()"
proof -
  have "fst (run_query no_faults one_row_engine ''out'' q v) = Inr ()" for q v
    by (rule run_query_no_faults_ok [where df = "()" and png = "''PNG''"])
      (simp_all add: one_row_engine_def)
  then have "fst (run_loop no_faults one_row_engine ''out'' queries w) = Inr ()"
    by (intro run_loop_all_ok) simp
  moreover have "mkdir_fault no_faults ''out'' = None" "connect one_row_engine = None"
    by (simp_all add: no_faults_def one_row_engine_def)
  ultimately have "fst (run_queries no_faults one_row_engine ''out'' w) = Inr ()"
    using run_queries_mkdir_ok [OF assms, of no_faults one_row_engine] by simp
  then show ?thesis
    by (simp add: pipeline_def build_database_over_eq build_toy)
qed

theorem pipeline_deterministic_witness:
  "fst (pipeline no_faults (\<lambda>db. one_row_engine) ''out'' toy_movies toy_store empty_world) = Inr () \<and>
   fst (pipeline no_faults (\<lambda>db. one_row_engine) ''out'' toy_movies three_store stale_world) = Inr () \<and>
   files stale_world ''out/01_top_10_highest_rated.csv'' = Some ''Title,Year,Rating'' \<and>
   files (snd (pipeline no_faults (\<lambda>db. one_row_engine) ''out'' toy_movies toy_store empty_world))
     ''out/01_top_10_highest_rated.csv'' \<noteq> None \<and>
   files (snd (pipeline no_faults (\<lambda>db. one_row_engine) ''out'' toy_movies toy_store empty_world))
     ''out/01_top_10_highest_rated.csv'' =
   files (snd (pipeline no_faults (\<lambda>db. one_row_engine) ''out'' toy_movies three_store stale_world))
     ''out/01_top_10_highest_rated.csv''"
proof -
  have a: "fst (pipeline no_faults (\<lambda>db. one_row_engine) ''out'' toy_movies toy_store empty_world) = Inr ()"
    by (rule pipeline_one_row) (simp add: empty_world_def)
  have b: "fst (pipeline no_faults (\<lambda>db. one_row_engine) ''out'' toy_movies three_store stale_world) = Inr ()"
    by (rule pipeline_one_row) (simp add: stale_world_def)
  have q: "queries ! 0 \<in> set queries" using length_queries by simp
  have n: "csv_of ''out'' (fst (queries ! 0)) = ''out/01_top_10_highest_rated.csv''"
    by (simp add: first_query_name csv_of_def path_join_def)
  from pipeline_deterministic [of no_faults "\<lambda>db. one_row_engine" "''out''" toy_movies three_store
      toy_store empty_world stale_world] a b
  have "\<forall>q\<in>set queries.
      files (snd (pipeline no_faults (\<lambda>db. one_row_engine) ''out'' toy_movies toy_store empty_world))
        (csv_of ''out'' (fst q)) \<noteq> None \<and>
      files (snd (pipeline no_faults (\<lambda>db. one_row_engine) ''out'' toy_movies toy_store empty_world))
        (csv_of ''out'' (fst q)) =
      files (snd (pipeline no_faults (\<lambda>db. one_row_engine) ''out'' toy_movies three_store stale_world))
        (csv_of ''out'' (fst q))"
    by blast
  note c = bspec [OF this q, unfolded n]
  have s: "files stale_world ''out/01_top_10_highest_rated.csv'' = Some ''Title,Year,Rating''"
    by (simp add: stale_world_def)
  from a b s c show ?thesis by (intro conjI) (elim conjE, assumption)+
qed

end
